theory Spec2Isabelle
  imports Main "HOL-Library.Word"
begin

section \<open>Data model of the file watcher\<close>

text \<open>
  The Go \<open>error\<close> values that reach the watcher come from \<open>os.Stat\<close> and from
  \<open>filepath.Walk\<close>; the watcher only tests them against \<open>nil\<close> and hands them on.
\<close>

datatype error = ErrNotExist | ErrPermission | ErrOther string

text \<open>
  \<open>time.Time\<close> is a struct of a wall-clock word, an extension word and a location
  pointer; the source compares two of them with \<open>!=\<close>, which is field-wise.
\<close>

datatype Time = Time (wall: "64 word") (ext: "64 word") (loc: nat)

text \<open>\<open>type FileInfo struct\<close>: \<open>int64\<close> size, \<open>time.Time\<close>, \<open>os.FileMode\<close> (a \<open>uint32\<close>), \<open>bool\<close>.\<close>

record FileInfo =
  Size :: "64 word"
  ModTime :: Time
  Mode :: "32 word"
  IsDir :: bool

text \<open>
  What \<open>os.Stat\<close> answers on success: the four methods of \<open>os.FileInfo\<close> that
  \<open>getFileInfo\<close> calls, each an observation of its own.
\<close>

record os_FileInfo =
  stat_Size :: "64 word"
  stat_ModTime :: Time
  stat_Mode :: "32 word"
  stat_IsDir :: bool

text \<open>\<open>type FileWatcher struct\<close>; the mutex has no content in a sequential run.\<close>

record FileWatcher =
  directories :: "string list"
  fileStates :: "string \<rightharpoonup> FileInfo"
  interval :: nat

text \<open>
  One call of the \<open>filepath.WalkFunc\<close>: the path, the \<open>err\<close> argument that
  \<open>filepath.Walk\<close> passes, and what \<open>os.Stat(path)\<close> answers at that moment.
\<close>

record visit =
  vpath :: string
  walk_err :: "error option"
  os_Stat :: "error + os_FileInfo"

text \<open>
  The file system as a pass sees it: the calls that the \<open>i\<close>-th \<open>filepath.Walk\<close> of
  the pass, on root \<open>dir\<close>, makes to a callback that keeps answering \<open>nil\<close>.
\<close>

type_synonym walker = "nat \<Rightarrow> string \<Rightarrow> visit list"

text \<open>Each \<open>fmt.Printf\<close> of the watcher is one event; \<open>render\<close> is the text printed.\<close>

datatype event =
    Created string
  | SizeChanged string
  | TimeChanged string
  | AttributesChanged string
  | Deleted string

fun render :: "event \<Rightarrow> string" where
  "render (Created path) = ''File created: '' @ path @ [CHR 0x0A]"
| "render (SizeChanged path) = ''File content modified (size changed): '' @ path @ [CHR 0x0A]"
| "render (TimeChanged path) = ''File modified (time changed): '' @ path @ [CHR 0x0A]"
| "render (AttributesChanged path) = ''File attributes modified: '' @ path @ [CHR 0x0A]"
| "render (Deleted path) = ''File deleted: '' @ path @ [CHR 0x0A]"

fun event_path :: "event \<Rightarrow> string" where
  "event_path (Created path) = path"
| "event_path (SizeChanged path) = path"
| "event_path (TimeChanged path) = path"
| "event_path (AttributesChanged path) = path"
| "event_path (Deleted path) = path"

section \<open>The operations\<close>

definition NewFileWatcher :: "string list \<Rightarrow> FileWatcher" where
  "NewFileWatcher dirs =
     \<lparr>directories = dirs, fileStates = Map.empty, interval = 1000000000\<rparr>"

definition getFileInfo :: "error + os_FileInfo \<Rightarrow> error + FileInfo" where
  "getFileInfo st =
     (case st of
        Inl err \<Rightarrow> Inl err
      | Inr stat \<Rightarrow>
          Inr \<lparr>Size = stat_Size stat, ModTime = stat_ModTime stat,
               Mode = stat_Mode stat, IsDir = stat_IsDir stat\<rparr>)"

subsection \<open>\<open>initialize\<close>\<close>

text \<open>
  One \<open>filepath.Walk\<close> with the callback of \<open>initialize\<close>: the callback answers the
  first error it meets, which ends the walk and is what \<open>Walk\<close> returns; the map
  keeps what was stored until then.
\<close>

fun init_walk :: "visit list \<Rightarrow> (string \<rightharpoonup> FileInfo) \<Rightarrow> (string \<rightharpoonup> FileInfo) \<times> error option" where
  "init_walk [] m = (m, None)"
| "init_walk (v # vs) m =
     (case walk_err v of
        Some err \<Rightarrow> (m, Some err)
      | None \<Rightarrow>
          (case getFileInfo (os_Stat v) of
             Inl err \<Rightarrow> (m, Some err)
           | Inr fileInfo \<Rightarrow> init_walk vs (m(vpath v \<mapsto> fileInfo))))"

fun init_dirs :: "walker \<Rightarrow> (nat \<times> string) list \<Rightarrow> (string \<rightharpoonup> FileInfo) \<Rightarrow>
    (string \<rightharpoonup> FileInfo) \<times> error option" where
  "init_dirs W [] m = (m, None)"
| "init_dirs W ((i, dir) # ds) m =
     (case init_walk (W i dir) m of
        (m', Some err) \<Rightarrow> (m', Some err)
      | (m', None) \<Rightarrow> init_dirs W ds m')"

definition initialize :: "walker \<Rightarrow> FileWatcher \<Rightarrow> FileWatcher \<times> error option" where
  "initialize W fw =
     (case init_dirs W (enumerate 0 (directories fw)) (fileStates fw) of
        (m, r) \<Rightarrow> (fw\<lparr>fileStates := m\<rparr>, r))"

subsection \<open>\<open>checkChanges\<close>\<close>

text \<open>
  What the callback of \<open>checkChanges\<close> reads and writes: the local set
  \<open>currentFiles\<close>, the map \<open>fw.fileStates\<close> and the lines printed so far.
\<close>

record scan =
  currentFiles :: "string set"
  states :: "string \<rightharpoonup> FileInfo"
  printed :: "event list"

definition check_visit :: "visit \<Rightarrow> scan \<Rightarrow> scan" where
  "check_visit v s =
     (case walk_err v of
        Some err \<Rightarrow> s
      | None \<Rightarrow>
          (let s1 = s\<lparr>currentFiles := insert (vpath v) (currentFiles s)\<rparr> in
           case getFileInfo (os_Stat v) of
             Inl err \<Rightarrow> s1
           | Inr newInfo \<Rightarrow>
               (let s2 =
                  (case states s1 (vpath v) of
                     None \<Rightarrow> s1\<lparr>printed := printed s1 @ [Created (vpath v)]\<rparr>
                   | Some oldInfo \<Rightarrow>
                       (let a = (if Size oldInfo \<noteq> Size newInfo
                                 then s1\<lparr>printed := printed s1 @ [SizeChanged (vpath v)]\<rparr>
                                 else s1);
                            b = (if ModTime oldInfo \<noteq> ModTime newInfo
                                 then a\<lparr>printed := printed a @ [TimeChanged (vpath v)]\<rparr>
                                 else a)
                        in if Mode oldInfo \<noteq> Mode newInfo
                           then b\<lparr>printed := printed b @ [AttributesChanged (vpath v)]\<rparr>
                           else b))
                in s2\<lparr>states := (states s2)(vpath v \<mapsto> newInfo)\<rparr>)))"

text \<open>The first loop: every root in turn, the callback on every call of its walk.\<close>

definition walk_phase :: "walker \<Rightarrow> FileWatcher \<Rightarrow> scan" where
  "walk_phase W fw =
     fold (\<lambda>(i, dir). fold check_visit (W i dir)) (enumerate 0 (directories fw))
       \<lparr>currentFiles = {}, states = fileStates fw, printed = []\<rparr>"

text \<open>
  The second loop, \<open>for path := range fw.fileStates\<close>. Go leaves the order of a map
  range open, so the order in which the keys come is an argument.
\<close>

fun sweep :: "string list \<Rightarrow> scan \<Rightarrow> scan" where
  "sweep [] s = s"
| "sweep (path # rest) s =
     sweep rest
       (if path \<notin> currentFiles s
        then s\<lparr>printed := printed s @ [Deleted path], states := (states s)(path := None)\<rparr>
        else s)"

text \<open>\<open>checkChanges\<close> returns the watcher after the pass and the events of the pass.\<close>

definition checkChanges :: "walker \<Rightarrow> string list \<Rightarrow> FileWatcher \<Rightarrow> FileWatcher \<times> event list" where
  "checkChanges W order fw =
     (let s = sweep order (walk_phase W fw)
      in (fw\<lparr>fileStates := states s\<rparr>, printed s))"

text \<open>
  An order is one that the range can take when it lists every key of the map once.
\<close>

definition range_order :: "(string \<rightharpoonup> FileInfo) \<Rightarrow> string list \<Rightarrow> bool" where
  "range_order m ks \<longleftrightarrow> distinct ks \<and> set ks = dom m"

subsection \<open>\<open>Start\<close> and \<open>main\<close>\<close>

text \<open>
  The channel of the ticker is never closed, so \<open>for range ticker.C\<close> has no exit and
  the \<open>return nil\<close> behind it is never reached. \<open>run_ticks\<close> is the loop after \<open>n\<close>
  ticks; tick \<open>k\<close> finds the file system \<open>fst (env k)\<close> and ranges in the order
  \<open>snd (env k)\<close>. \<open>log.Fatal\<close> ends the process, so a fatal end is a result of
  \<open>main\<close>. The line that \<open>main\<close> prints before \<open>Start\<close> is none of the five
  events and is left out.
\<close>

type_synonym ticks = "nat \<Rightarrow> walker \<times> string list"

fun run_ticks :: "ticks \<Rightarrow> nat \<Rightarrow> FileWatcher \<Rightarrow> FileWatcher \<times> event list" where
  "run_ticks env 0 fw = (fw, [])"
| "run_ticks env (Suc n) fw =
     (case run_ticks env n fw of
        (fw1, out) \<Rightarrow>
          (case checkChanges (fst (env n)) (snd (env n)) fw1 of
             (fw2, evs) \<Rightarrow> (fw2, out @ evs)))"

datatype start_result =
    Returned error
  | Ticking FileWatcher "event list"

definition Start :: "walker \<Rightarrow> ticks \<Rightarrow> nat \<Rightarrow> FileWatcher \<Rightarrow> start_result" where
  "Start W0 env n fw =
     (case initialize W0 fw of
        (fw1, Some err) \<Rightarrow> Returned err
      | (fw1, None) \<Rightarrow> (case run_ticks env n fw1 of (fw2, out) \<Rightarrow> Ticking fw2 out))"




section \<open>What a walk lists and observes\<close>

text \<open>All the callback calls of one pass, root after root.\<close>

definition pass_trace :: "walker \<Rightarrow> string list \<Rightarrow> visit list" where
  "pass_trace W dirs = concat (map (\<lambda>(i, dir). W i dir) (enumerate 0 dirs))"

text \<open>A call is listed when the walk hands it over without an error.\<close>

definition listed :: "visit list \<Rightarrow> string set" where
  "listed vs = set (map vpath (filter (\<lambda>v. walk_err v = None) vs))"

text \<open>The record a call observes: listed, and the stat succeeds.\<close>

definition observe :: "visit \<Rightarrow> (string \<times> FileInfo) option" where
  "observe v =
     (case walk_err v of
        Some err \<Rightarrow> None
      | None \<Rightarrow>
          (case getFileInfo (os_Stat v) of
             Inl err \<Rightarrow> None
           | Inr info \<Rightarrow> Some (vpath v, info)))"

definition walk_output :: "visit list \<Rightarrow> (string \<times> FileInfo) list" where
  "walk_output vs = List.map_filter observe vs"

text \<open>The last record observed for each path in a pass.\<close>

definition latest :: "visit list \<Rightarrow> (string \<rightharpoonup> FileInfo)" where
  "latest vs = map_of (rev (walk_output vs))"

section \<open>The events of a walk as a function of its calls\<close>

text \<open>
  The three comparisons of the callback, the choice between them and \<open>Created\<close>,
  and the events of a whole sequence of calls against a map that is updated as the
  callback updates it.
\<close>

definition change_events :: "string \<Rightarrow> FileInfo \<Rightarrow> FileInfo \<Rightarrow> event list" where
  "change_events p old new =
     (if Size old \<noteq> Size new then [SizeChanged p] else []) @
     (if ModTime old \<noteq> ModTime new then [TimeChanged p] else []) @
     (if Mode old \<noteq> Mode new then [AttributesChanged p] else [])"

definition entry_events :: "(string \<rightharpoonup> FileInfo) \<Rightarrow> string \<Rightarrow> FileInfo \<Rightarrow> event list" where
  "entry_events m p new = (case m p of None \<Rightarrow> [Created p] | Some old \<Rightarrow> change_events p old new)"

fun emitted :: "visit list \<Rightarrow> (string \<rightharpoonup> FileInfo) \<Rightarrow> event list" where
  "emitted [] m = []"
| "emitted (v # vs) m =
     (case observe v of
        None \<Rightarrow> emitted vs m
      | Some (p, new) \<Rightarrow> entry_events m p new @ emitted vs (m(p \<mapsto> new)))"

text \<open>The paths a pass observes: those for which some call yields a record.\<close>

definition observed :: "visit list \<Rightarrow> string set" where
  "observed vs = set (map fst (walk_output vs))"

text \<open>
  A file system that does not change during a pass: the calls of the walk of each root
  it holds; a root it does not hold does not exist, and its walk is the one call that
  reports so.
\<close>

definition static_fs :: "(string \<times> visit list) list \<Rightarrow> walker" where
  "static_fs tbl i dir =
     (case map_of tbl dir of
        Some vs \<Rightarrow> vs
      | None \<Rightarrow> [\<lparr>vpath = dir, walk_err = Some ErrNotExist, os_Stat = Inl ErrNotExist\<rparr>])"

text \<open>Two records that the three comparisons of the callback cannot tell apart.\<close>

definition same_meta :: "FileInfo \<Rightarrow> FileInfo \<Rightarrow> bool" where
  "same_meta a b \<longleftrightarrow> Size a = Size b \<and> ModTime a = ModTime b \<and> Mode a = Mode b"

section \<open>Example inputs\<close>

text \<open>
  A directory \<open>/d\<close> and a file of ten bytes, as \<open>os.Stat\<close> answers and as the
  watcher stores them; a watcher of \<open>/d\<close> with a given snapshot; a file system in
  which the walk of \<open>/d\<close> calls back for \<open>/d\<close> itself and then makes one more call.
\<close>

abbreviation d_stat :: os_FileInfo where
  "d_stat \<equiv> \<lparr>stat_Size = 4096, stat_ModTime = Time 9 9 0, stat_Mode = 2147484141, stat_IsDir = True\<rparr>"

abbreviation d_info :: FileInfo where
  "d_info \<equiv> \<lparr>Size = 4096, ModTime = Time 9 9 0, Mode = 2147484141, IsDir = True\<rparr>"

abbreviation a_stat :: os_FileInfo where
  "a_stat \<equiv> \<lparr>stat_Size = 10, stat_ModTime = Time 5 7 0, stat_Mode = 420, stat_IsDir = False\<rparr>"

abbreviation a_info :: FileInfo where
  "a_info \<equiv> \<lparr>Size = 10, ModTime = Time 5 7 0, Mode = 420, IsDir = False\<rparr>"

abbreviation watching_d :: "(string \<rightharpoonup> FileInfo) \<Rightarrow> FileWatcher" where
  "watching_d m \<equiv> \<lparr>directories = [''/d''], fileStates = m, interval = 1000000000\<rparr>"

abbreviation walk_d :: "visit \<Rightarrow> walker" where
  "walk_d v \<equiv> static_fs [(''/d'', [\<lparr>vpath = ''/d'', walk_err = None, os_Stat = Inr d_stat\<rparr>, v])]"

section \<open>Start-up\<close>

text \<open>A call on which the callback of \<open>initialize\<close> answers an error.\<close>

definition failing :: "visit \<Rightarrow> bool" where
  "failing v \<longleftrightarrow> walk_err v \<noteq> None \<or> (\<exists>e. getFileInfo (os_Stat v) = Inl e)"

text \<open>Ticks that all find the same file system and range in the same order.\<close>

definition every_tick :: "walker \<Rightarrow> string list \<Rightarrow> ticks" where
  "every_tick W order k = (W, order)"


section \<open>Runs that differ in the directory flag only\<close>

text \<open>
  Two answers of \<open>os.Stat\<close>, two callback calls and two snapshots that agree in
  everything but, possibly, the directory flag.
\<close>

definition same_stat :: "os_FileInfo \<Rightarrow> os_FileInfo \<Rightarrow> bool" where
  "same_stat a b \<longleftrightarrow>
     stat_Size a = stat_Size b \<and> stat_ModTime a = stat_ModTime b \<and> stat_Mode a = stat_Mode b"

definition same_call :: "visit \<Rightarrow> visit \<Rightarrow> bool" where
  "same_call v w \<longleftrightarrow>
     vpath v = vpath w \<and> walk_err v = walk_err w \<and> rel_sum (=) same_stat (os_Stat v) (os_Stat w)"

definition same_snapshot :: "(string \<rightharpoonup> FileInfo) \<Rightarrow> (string \<rightharpoonup> FileInfo) \<Rightarrow> bool" where
  "same_snapshot m m' \<longleftrightarrow> (\<forall>p. rel_option same_meta (m p) (m' p))"

section \<open>The two loops of a pass\<close>

lemma check_visit_skip: "walk_err v = Some e \<Longrightarrow> check_visit v s = s"
  by (simp add: check_visit_def)

lemma check_visit_stat_fails:
  "walk_err v = None \<Longrightarrow> getFileInfo (os_Stat v) = Inl e \<Longrightarrow>
   check_visit v s = s\<lparr>currentFiles := insert (vpath v) (currentFiles s)\<rparr>"
  by (simp add: check_visit_def)

lemma check_visit_currentFiles:
  "currentFiles (check_visit v s) =
     (if walk_err v = None then insert (vpath v) (currentFiles s) else currentFiles s)"
  by (simp add: check_visit_def Let_def split: option.splits sum.splits)

lemma check_visit_states:
  "states (check_visit v s) =
     (case observe v of None \<Rightarrow> states s | Some (p, new) \<Rightarrow> (states s)(p \<mapsto> new))"
  by (simp add: check_visit_def observe_def Let_def split: option.splits sum.splits)

lemma check_visit_printed:
  "printed (check_visit v s) =
     printed s @ (case observe v of None \<Rightarrow> [] | Some (p, new) \<Rightarrow> entry_events (states s) p new)"
  by (simp add: check_visit_def observe_def entry_events_def change_events_def Let_def
      split: option.splits sum.splits)

lemma listed_Nil: "listed [] = {}"
  by (simp add: listed_def)

lemma listed_Cons:
  "listed (v # vs) = (if walk_err v = None then insert (vpath v) (listed vs) else listed vs)"
  by (simp add: listed_def)

lemma latest_Nil: "latest [] = Map.empty"
  by (simp add: latest_def walk_output_def)

lemma latest_Cons:
  "m ++ latest (v # vs) =
     (case observe v of None \<Rightarrow> m | Some (p, new) \<Rightarrow> m(p \<mapsto> new)) ++ latest vs"
  by (cases "observe v") (auto simp: latest_def walk_output_def)

lemma fold_currentFiles:
  "currentFiles (fold check_visit vs s) = currentFiles s \<union> listed vs"
  by (induction vs arbitrary: s) (auto simp: check_visit_currentFiles listed_Nil listed_Cons)

lemma fold_states: "states (fold check_visit vs s) = states s ++ latest vs"
proof (induction vs arbitrary: s)
  case Nil
  show ?case by (simp add: latest_Nil)
next
  case (Cons v vs)
  show ?case
    by (simp add: Cons.IH check_visit_states latest_Cons [of "states s" v vs])
qed

lemma fold_printed: "printed (fold check_visit vs s) = printed s @ emitted vs (states s)"
proof (induction vs arbitrary: s)
  case Nil
  show ?case by simp
next
  case (Cons v vs)
  show ?case
    by (cases "observe v") (auto simp: Cons.IH check_visit_printed check_visit_states)
qed

lemma fold_fold_concat:
  "fold (\<lambda>x. fold f (g x)) xs s = fold f (concat (map g xs)) s"
  by (induction xs arbitrary: s) simp_all

lemma walk_phase_trace:
  "walk_phase W fw =
     fold check_visit (pass_trace W (directories fw))
       \<lparr>currentFiles = {}, states = fileStates fw, printed = []\<rparr>"
proof -
  have "(\<lambda>(i, dir). fold check_visit (W i dir)) = (\<lambda>x. fold check_visit ((\<lambda>(i, dir). W i dir) x))"
    by (simp add: fun_eq_iff)
  then show ?thesis
    by (simp add: walk_phase_def pass_trace_def fold_fold_concat)
qed

lemma sweep_currentFiles: "currentFiles (sweep ks s) = currentFiles s"
  by (induction ks arbitrary: s) simp_all

lemma sweep_states:
  "states (sweep ks s) p = (if p \<in> set ks \<and> p \<notin> currentFiles s then None else states s p)"
  by (induction ks arbitrary: s) (auto simp: sweep_currentFiles)

lemma sweep_printed:
  "printed (sweep ks s) = printed s @ map Deleted (filter (\<lambda>p. p \<notin> currentFiles s) ks)"
  by (induction ks arbitrary: s) simp_all

lemma checkChanges_events:
  "snd (checkChanges W order fw) =
     emitted (pass_trace W (directories fw)) (fileStates fw) @
     map Deleted (filter (\<lambda>p. p \<notin> listed (pass_trace W (directories fw))) order)"
  by (simp add: checkChanges_def Let_def sweep_printed walk_phase_trace fold_printed fold_currentFiles)

lemma checkChanges_states:
  "fileStates (fst (checkChanges W order fw)) p =
     (if p \<in> set order \<and> p \<notin> listed (pass_trace W (directories fw)) then None
      else (fileStates fw ++ latest (pass_trace W (directories fw))) p)"
  by (simp add: checkChanges_def Let_def sweep_states walk_phase_trace fold_states fold_currentFiles)

lemma checkChanges_rest:
  "directories (fst (checkChanges W order fw)) = directories fw"
  "interval (fst (checkChanges W order fw)) = interval fw"
  by (simp_all add: checkChanges_def Let_def)

section \<open>Events and records of a pass\<close>

lemma walk_output_Nil: "walk_output [] = []"
  by (simp add: walk_output_def)

lemma walk_output_Cons:
  "walk_output (v # vs) = (case observe v of None \<Rightarrow> walk_output vs | Some x \<Rightarrow> x # walk_output vs)"
  by (simp add: walk_output_def split: option.splits)

lemma observed_Nil: "observed [] = {}"
  by (simp add: observed_def walk_output_Nil)

lemma observed_Cons:
  "observed (v # vs) =
     (case observe v of None \<Rightarrow> observed vs | Some (p, new) \<Rightarrow> insert p (observed vs))"
  by (simp add: observed_def walk_output_Cons split: option.splits)

lemma observe_SomeD:
  "observe v = Some (p, new) \<Longrightarrow>
     p = vpath v \<and> walk_err v = None \<and> getFileInfo (os_Stat v) = Inr new"
  by (auto simp: observe_def split: option.splits sum.splits)

lemma observed_subset_listed: "observed vs \<subseteq> listed vs"
proof (induction vs)
  case Nil
  show ?case by (simp add: observed_Nil)
next
  case (Cons v vs)
  then show ?case
    by (cases "observe v") (auto simp: observed_Cons listed_Cons dest: observe_SomeD)
qed

lemma dom_latest: "dom (latest vs) = observed vs"
  by (simp add: latest_def observed_def dom_map_of_conv_image_fst)

lemma latest_None: "p \<notin> observed vs \<Longrightarrow> latest vs p = None"
  using dom_latest [of vs] by blast

lemma latest_in_output: "latest vs p = Some info \<Longrightarrow> (p, info) \<in> set (walk_output vs)"
  by (auto simp: latest_def dest: map_of_SomeD)

lemma entry_events_Created:
  "count_list (entry_events m q new) (Created p) = (if m q = None \<and> q = p then 1 else 0)"
  by (auto simp: entry_events_def change_events_def split: option.splits)

lemma emitted_Created:
  "count_list (emitted vs m) (Created p) = (if m p = None \<and> p \<in> observed vs then 1 else 0)"
proof (induction vs arbitrary: m)
  case Nil
  show ?case by (simp add: observed_Nil)
next
  case (Cons v vs)
  show ?case
  proof (cases "observe v")
    case None
    then show ?thesis by (simp add: Cons.IH observed_Cons)
  next
    case (Some x)
    obtain q new where x: "x = (q, new)" by (cases x)
    show ?thesis
      by (auto simp: Some x Cons.IH observed_Cons entry_events_Created)
  qed
qed

lemma entry_events_path: "e \<in> set (entry_events m q new) \<Longrightarrow> event_path e = q \<and> e \<noteq> Deleted q"
  by (auto simp: entry_events_def change_events_def split: option.splits if_splits)

lemma emitted_path: "e \<in> set (emitted vs m) \<Longrightarrow> event_path e \<in> observed vs \<and> e \<noteq> Deleted (event_path e)"
proof (induction vs arbitrary: m)
  case Nil
  then show ?case by simp
next
  case (Cons v vs)
  show ?case
  proof (cases "observe v")
    case None
    with Cons show ?thesis by (simp add: observed_Cons)
  next
    case (Some x)
    obtain q new where x: "x = (q, new)" by (cases x)
    from Cons.prems have "e \<in> set (entry_events m q new) \<or> e \<in> set (emitted vs (m(q \<mapsto> new)))"
      by (simp add: Some x)
    then show ?thesis
      using Cons.IH entry_events_path by (auto simp: Some x observed_Cons)
  qed
qed



lemma count_Deleted_other:
  "e \<noteq> Deleted (event_path e) \<Longrightarrow> count_list (map Deleted ks) e = 0"
  by (induction ks) auto

lemma walk_phase_currentFiles:
  "currentFiles (walk_phase W fw) = listed (pass_trace W (directories fw))"
  by (simp add: walk_phase_trace fold_currentFiles)

lemma walk_phase_states:
  "states (walk_phase W fw) = fileStates fw ++ latest (pass_trace W (directories fw))"
  by (simp add: walk_phase_trace fold_states)

section \<open>Creation\<close>

text \<open>
  Claim C1. A path that the snapshot does not hold before a periodic pass and that the
  walk of the pass observes (listed without error, stat succeeds) gets exactly one
  \<open>Created\<close> event in the pass, and after the pass the snapshot holds it with the
  record observed for it, the last one when several roots reach the path.
\<close>

theorem created_once:
  assumes "fileStates fw p = None"
    and "p \<in> observed (pass_trace W (directories fw))"
  shows "count_list (snd (checkChanges W order fw)) (Created p) = 1 \<and>
         (\<exists>info. fileStates (fst (checkChanges W order fw)) p = Some info \<and>
                 latest (pass_trace W (directories fw)) p = Some info \<and>
                 (p, info) \<in> set (walk_output (pass_trace W (directories fw))))"
proof -
  let ?tr = "pass_trace W (directories fw)"
  have "count_list (map Deleted (filter (\<lambda>p. p \<notin> listed ?tr) order)) (Created p) = 0"
    by (rule count_Deleted_other) simp
  with assms have c: "count_list (snd (checkChanges W order fw)) (Created p) = 1"
    by (simp add: checkChanges_events emitted_Created)
  from assms(2) obtain info where l: "latest ?tr p = Some info"
    using dom_latest [of ?tr] by blast
  from assms(2) have "p \<in> listed ?tr"
    using observed_subset_listed by blast
  then have "fileStates (fst (checkChanges W order fw)) p = Some info"
    by (simp add: checkChanges_states map_add_def l)
  with c l latest_in_output [OF l] show ?thesis by blast
qed

theorem created_once_witness:
  "fileStates (NewFileWatcher [''/d'']) ''/d/a.txt'' = None \<and>
   ''/d/a.txt'' \<in> observed (pass_trace
      (static_fs [(''/d'', [\<lparr>vpath = ''/d/a.txt'', walk_err = None,
          os_Stat = Inr \<lparr>stat_Size = 10, stat_ModTime = Time 5 7 0,
                         stat_Mode = 420, stat_IsDir = False\<rparr>\<rparr>])])
      (directories (NewFileWatcher [''/d'']))) \<and>
   count_list
     (snd (checkChanges
        (static_fs [(''/d'', [\<lparr>vpath = ''/d/a.txt'', walk_err = None,
            os_Stat = Inr \<lparr>stat_Size = 10, stat_ModTime = Time 5 7 0,
                           stat_Mode = 420, stat_IsDir = False\<rparr>\<rparr>])])
        [''/d/a.txt''] (NewFileWatcher [''/d''])))
     (Created ''/d/a.txt'') = 1 \<and>
   fileStates (fst (checkChanges
        (static_fs [(''/d'', [\<lparr>vpath = ''/d/a.txt'', walk_err = None,
            os_Stat = Inr \<lparr>stat_Size = 10, stat_ModTime = Time 5 7 0,
                           stat_Mode = 420, stat_IsDir = False\<rparr>\<rparr>])])
        [''/d/a.txt''] (NewFileWatcher [''/d'']))) ''/d/a.txt'' =
     Some \<lparr>Size = 10, ModTime = Time 5 7 0, Mode = 420, IsDir = False\<rparr>"
  using created_once [of "NewFileWatcher [''/d'']" "''/d/a.txt''"
      "static_fs [(''/d'', [\<lparr>vpath = ''/d/a.txt'', walk_err = None,
          os_Stat = Inr \<lparr>stat_Size = 10, stat_ModTime = Time 5 7 0,
                         stat_Mode = 420, stat_IsDir = False\<rparr>\<rparr>])]" "[''/d/a.txt'']"]
  by (simp add: NewFileWatcher_def static_fs_def pass_trace_def observed_def walk_output_def
      observe_def getFileInfo_def latest_def)

section \<open>Deletion\<close>



section \<open>Evaluation of the examples\<close>

lemmas eval_defs = checkChanges_def walk_phase_def static_fs_def check_visit_def getFileInfo_def
      pass_trace_def observed_def walk_output_def observe_def range_order_def same_meta_def

section \<open>Paths that a pass cannot read\<close>

lemma walk_phase_dom:
  "dom (states (walk_phase W fw)) =
     observed (pass_trace W (directories fw)) \<union> dom (fileStates fw)"
  by (simp add: walk_phase_states dom_latest)

lemma filter_path_emitted:
  "p \<notin> observed vs \<Longrightarrow> filter (\<lambda>e. event_path e = p) (emitted vs m) = []"
  using emitted_path [of _ vs m] by (auto simp: filter_empty_conv)

lemma filter_path_Deleted:
  "distinct ks \<Longrightarrow>
   filter (\<lambda>e. event_path e = p) (map Deleted (filter P ks)) =
     (if p \<in> set ks \<and> P p then [Deleted p] else [])"
  by (induction ks) (auto simp: filter_empty_conv)

text \<open>
  Claim C3, as the code has it. A periodic pass has no error result. For a path that
  no call of the pass observes (each call for it carries a walk error or its stat
  fails): when no call lists it without a walk error, it is outside \<open>currentFiles\<close>,
  and the sweep of this pass emits exactly \<open>Deleted\<close> for it if the snapshot held it
  and removes it; when a call lists it and the stat then fails, the path is in
  \<open>currentFiles\<close>, the pass emits no event about it, and the snapshot keeps for it
  exactly what it held before.
\<close>

theorem unreadable_path:
  assumes "range_order (states (walk_phase W fw)) order"
    and "p \<notin> observed (pass_trace W (directories fw))"
  shows "currentFiles (walk_phase W fw) = listed (pass_trace W (directories fw)) \<and>
         filter (\<lambda>e. event_path e = p) (snd (checkChanges W order fw)) =
           (if p \<in> currentFiles (walk_phase W fw) \<or> fileStates fw p = None then []
            else [Deleted p]) \<and>
         fileStates (fst (checkChanges W order fw)) p =
           (if p \<in> currentFiles (walk_phase W fw) then fileStates fw p else None)"
proof -
  let ?tr = "pass_trace W (directories fw)"
  from assms(1) have d: "distinct order"
    and o: "set order = observed ?tr \<union> dom (fileStates fw)"
    by (simp_all add: range_order_def walk_phase_dom)
  from o assms(2) have m: "p \<in> set order \<longleftrightarrow> fileStates fw p \<noteq> None"
    by auto
  have "filter (\<lambda>e. event_path e = p) (snd (checkChanges W order fw)) =
      (if p \<in> set order \<and> p \<notin> listed ?tr then [Deleted p] else [])"
    by (simp add: checkChanges_events filter_path_emitted [OF assms(2)] filter_path_Deleted [OF d])
  with m have ev: "filter (\<lambda>e. event_path e = p) (snd (checkChanges W order fw)) =
      (if p \<in> currentFiles (walk_phase W fw) \<or> fileStates fw p = None then [] else [Deleted p])"
    by (simp add: walk_phase_currentFiles)
  have "fileStates (fst (checkChanges W order fw)) p =
      (if p \<in> currentFiles (walk_phase W fw) then fileStates fw p else None)"
    using m assms(2)
    by (auto simp: checkChanges_states walk_phase_currentFiles map_add_def latest_None)
  with ev walk_phase_currentFiles [of W fw] show ?thesis by blast
qed

theorem unreadable_path_witness:
  "range_order
     (states (walk_phase
        (walk_d \<lparr>vpath = ''/d/a.txt'', walk_err = Some ErrNotExist, os_Stat = Inl ErrNotExist\<rparr>)
        (watching_d [''/d'' \<mapsto> d_info, ''/d/a.txt'' \<mapsto> a_info])))
     [''/d/a.txt'', ''/d''] \<and>
   ''/d/a.txt'' \<notin> observed (pass_trace
        (walk_d \<lparr>vpath = ''/d/a.txt'', walk_err = Some ErrNotExist, os_Stat = Inl ErrNotExist\<rparr>)
        [''/d'']) \<and>
   filter (\<lambda>e. event_path e = ''/d/a.txt'')
     (snd (checkChanges
        (walk_d \<lparr>vpath = ''/d/a.txt'', walk_err = Some ErrNotExist, os_Stat = Inl ErrNotExist\<rparr>)
        [''/d/a.txt'', ''/d''] (watching_d [''/d'' \<mapsto> d_info, ''/d/a.txt'' \<mapsto> a_info]))) =
     [Deleted ''/d/a.txt''] \<and>
   fileStates (fst (checkChanges
        (walk_d \<lparr>vpath = ''/d/a.txt'', walk_err = Some ErrNotExist, os_Stat = Inl ErrNotExist\<rparr>)
        [''/d/a.txt'', ''/d''] (watching_d [''/d'' \<mapsto> d_info, ''/d/a.txt'' \<mapsto> a_info])))
     ''/d/a.txt'' = None"
proof -
  have h1: "range_order
     (states (walk_phase
        (walk_d \<lparr>vpath = ''/d/a.txt'', walk_err = Some ErrNotExist, os_Stat = Inl ErrNotExist\<rparr>)
        (watching_d [''/d'' \<mapsto> d_info, ''/d/a.txt'' \<mapsto> a_info])))
     [''/d/a.txt'', ''/d'']"
    by (auto simp: eval_defs)
  have h2: "''/d/a.txt'' \<notin> observed (pass_trace
        (walk_d \<lparr>vpath = ''/d/a.txt'', walk_err = Some ErrNotExist, os_Stat = Inl ErrNotExist\<rparr>)
        (directories (watching_d [''/d'' \<mapsto> d_info, ''/d/a.txt'' \<mapsto> a_info])))"
    by (simp add: eval_defs)
  have c: "''/d/a.txt'' \<notin> currentFiles (walk_phase
        (walk_d \<lparr>vpath = ''/d/a.txt'', walk_err = Some ErrNotExist, os_Stat = Inl ErrNotExist\<rparr>)
        (watching_d [''/d'' \<mapsto> d_info, ''/d/a.txt'' \<mapsto> a_info]))"
    by (simp add: eval_defs)
  show ?thesis
    using h1 h2 c unreadable_path [OF h1 h2]
    by simp
qed

text \<open>
  A path listed by the walk whose stat is then refused: it is in \<open>currentFiles\<close>, the
  pass prints nothing, and the record of the earlier pass stays in the snapshot.
\<close>

theorem unreadable_path_counterexample:
  "range_order
     (states (walk_phase (walk_d \<lparr>vpath = ''/d/b.txt'', walk_err = None, os_Stat = Inl ErrPermission\<rparr>)
        (watching_d [''/d'' \<mapsto> d_info, ''/d/b.txt'' \<mapsto> a_info])))
     [''/d'', ''/d/b.txt''] \<and>
   ''/d/b.txt'' \<in> currentFiles
     (walk_phase (walk_d \<lparr>vpath = ''/d/b.txt'', walk_err = None, os_Stat = Inl ErrPermission\<rparr>)
        (watching_d [''/d'' \<mapsto> d_info, ''/d/b.txt'' \<mapsto> a_info])) \<and>
   snd (checkChanges (walk_d \<lparr>vpath = ''/d/b.txt'', walk_err = None, os_Stat = Inl ErrPermission\<rparr>)
        [''/d'', ''/d/b.txt''] (watching_d [''/d'' \<mapsto> d_info, ''/d/b.txt'' \<mapsto> a_info])) = [] \<and>
   fileStates (fst (checkChanges
        (walk_d \<lparr>vpath = ''/d/b.txt'', walk_err = None, os_Stat = Inl ErrPermission\<rparr>)
        [''/d'', ''/d/b.txt''] (watching_d [''/d'' \<mapsto> d_info, ''/d/b.txt'' \<mapsto> a_info])))
     ''/d/b.txt'' = Some a_info"
  by (auto simp: eval_defs)

section \<open>The keys of the snapshot after a pass\<close>

text \<open>
  Claim C4, as the code has it. After a periodic pass the keys of the snapshot are the
  paths observed in the pass together with the earlier keys that the walk listed
  without error (those whose stat failed keep their old record); no key remains that
  is outside \<open>currentFiles\<close>. The snapshot is a map, so a key occurs once.
\<close>

theorem snapshot_keys:
  assumes "range_order (states (walk_phase W fw)) order"
  shows "dom (fileStates (fst (checkChanges W order fw))) =
           observed (pass_trace W (directories fw)) \<union>
           (dom (fileStates fw) \<inter> currentFiles (walk_phase W fw)) \<and>
         dom (fileStates (fst (checkChanges W order fw))) \<subseteq> currentFiles (walk_phase W fw)"
proof -
  let ?tr = "pass_trace W (directories fw)"
  from assms have o: "set order = observed ?tr \<union> dom (fileStates fw)"
    by (simp add: range_order_def walk_phase_dom)
  have sub: "observed ?tr \<subseteq> listed ?tr"
    by (rule observed_subset_listed)
  have domS: "dom (fileStates fw ++ latest ?tr) = set order"
    by (simp add: o dom_latest)
  have key: "\<And>p. (fileStates fw ++ latest ?tr) p = None \<longleftrightarrow> p \<notin> set order"
    by (metis domS domIff)
  have "\<And>p. fileStates (fst (checkChanges W order fw)) p \<noteq> None \<longleftrightarrow>
          p \<in> set order \<and> p \<in> listed ?tr"
  proof -
    fix p
    show "fileStates (fst (checkChanges W order fw)) p \<noteq> None \<longleftrightarrow>
          p \<in> set order \<and> p \<in> listed ?tr"
    proof (cases "p \<in> set order \<and> p \<notin> listed ?tr")
      case True
      then show ?thesis by (simp add: checkChanges_states)
    next
      case False
      then have "fileStates (fst (checkChanges W order fw)) p = (fileStates fw ++ latest ?tr) p"
        by (auto simp: checkChanges_states)
      with key [of p] False show ?thesis by auto
    qed
  qed
  then have "dom (fileStates (fst (checkChanges W order fw))) = set order \<inter> listed ?tr"
    by (auto simp: domIff)
  with sub o have "dom (fileStates (fst (checkChanges W order fw))) =
      observed ?tr \<union> (dom (fileStates fw) \<inter> listed ?tr)"
    by blast
  with sub show ?thesis
    by (auto simp: walk_phase_currentFiles)
qed

theorem snapshot_keys_witness:
  "range_order
     (states (walk_phase (walk_d \<lparr>vpath = ''/d/a.txt'', walk_err = None, os_Stat = Inl ErrNotExist\<rparr>)
        (watching_d [''/d'' \<mapsto> d_info, ''/d/a.txt'' \<mapsto> a_info])))
     [''/d/a.txt'', ''/d''] \<and>
   dom (fileStates (fst (checkChanges
       (walk_d \<lparr>vpath = ''/d/a.txt'', walk_err = None, os_Stat = Inl ErrNotExist\<rparr>)
       [''/d/a.txt'', ''/d''] (watching_d [''/d'' \<mapsto> d_info, ''/d/a.txt'' \<mapsto> a_info])))) =
     {''/d''} \<union> ({''/d'', ''/d/a.txt''} \<inter> {''/d'', ''/d/a.txt''})"
proof -
  have h: "range_order
     (states (walk_phase (walk_d \<lparr>vpath = ''/d/a.txt'', walk_err = None, os_Stat = Inl ErrNotExist\<rparr>)
        (watching_d [''/d'' \<mapsto> d_info, ''/d/a.txt'' \<mapsto> a_info])))
     [''/d/a.txt'', ''/d'']"
    by (auto simp: eval_defs)
  show ?thesis
    using h snapshot_keys [OF h]
    by (auto simp: eval_defs)
qed

text \<open>
  A file whose stat fails after the walk listed it stays a key of the snapshot, though
  the pass observed only the directory.
\<close>

theorem snapshot_keys_counterexample:
  "range_order
     (states (walk_phase (walk_d \<lparr>vpath = ''/d/a.txt'', walk_err = None, os_Stat = Inl ErrNotExist\<rparr>)
        (watching_d [''/d'' \<mapsto> d_info, ''/d/a.txt'' \<mapsto> a_info])))
     [''/d/a.txt'', ''/d''] \<and>
   dom (fileStates (fst (checkChanges
      (walk_d \<lparr>vpath = ''/d/a.txt'', walk_err = None, os_Stat = Inl ErrNotExist\<rparr>)
      [''/d/a.txt'', ''/d''] (watching_d [''/d'' \<mapsto> d_info, ''/d/a.txt'' \<mapsto> a_info])))) =
     {''/d'', ''/d/a.txt''} \<and>
   observed (pass_trace
      (walk_d \<lparr>vpath = ''/d/a.txt'', walk_err = None, os_Stat = Inl ErrNotExist\<rparr>) [''/d'']) =
     {''/d''} \<and>
   dom (fileStates (fst (checkChanges
      (walk_d \<lparr>vpath = ''/d/a.txt'', walk_err = None, os_Stat = Inl ErrNotExist\<rparr>)
      [''/d/a.txt'', ''/d''] (watching_d [''/d'' \<mapsto> d_info, ''/d/a.txt'' \<mapsto> a_info])))) \<noteq>
   observed (pass_trace
      (walk_d \<lparr>vpath = ''/d/a.txt'', walk_err = None, os_Stat = Inl ErrNotExist\<rparr>) [''/d''])"
  by (auto simp: eval_defs)

section \<open>A pass over an unchanged tree\<close>

lemma same_meta_change_events: "same_meta old new \<Longrightarrow> change_events p old new = []"
  by (simp add: same_meta_def change_events_def)

lemma same_meta_trans: "same_meta a b \<Longrightarrow> same_meta a c \<Longrightarrow> same_meta b c"
  by (simp add: same_meta_def)

lemma emitted_unchanged:
  "\<forall>(p, new) \<in> set (walk_output vs). \<exists>old. m p = Some old \<and> same_meta old new \<Longrightarrow>
   emitted vs m = []"
proof (induction vs arbitrary: m)
  case Nil
  show ?case by simp
next
  case (Cons v vs)
  show ?case
  proof (cases "observe v")
    case None
    with Cons show ?thesis by (simp add: walk_output_Cons)
  next
    case (Some x)
    obtain q new where x: "x = (q, new)" by (cases x)
    from Cons.prems obtain old where old: "m q = Some old" "same_meta old new"
      by (auto simp: walk_output_Cons Some x)
    have "\<forall>(p, n) \<in> set (walk_output vs). \<exists>r. (m(q \<mapsto> new)) p = Some r \<and> same_meta r n"
    proof (clarify)
      fix p n assume pn: "(p, n) \<in> set (walk_output vs)"
      with Cons.prems obtain r where r: "m p = Some r" "same_meta r n"
        by (fastforce simp: walk_output_Cons Some x)
      show "\<exists>r. (m(q \<mapsto> new)) p = Some r \<and> same_meta r n"
      proof (cases "p = q")
        case True
        with r old have "same_meta new n" by (auto intro: same_meta_trans)
        with True show ?thesis by simp
      next
        case False
        with r show ?thesis by simp
      qed
    qed
    then have "emitted vs (m(q \<mapsto> new)) = []" by (rule Cons.IH)
    with old show ?thesis
      by (simp add: Some x entry_events_def same_meta_change_events)
  qed
qed

text \<open>
  Claim C5. When every record that the walk of a pass observes has the size, the
  modification time and the mode of the record the snapshot holds for its path, and the
  walk observes every path of the snapshot, the pass emits no event.
\<close>

theorem unchanged_no_events:
  assumes "range_order (states (walk_phase W fw)) order"
    and "\<forall>(p, new) \<in> set (walk_output (pass_trace W (directories fw))).
           \<exists>old. fileStates fw p = Some old \<and> same_meta old new"
    and "dom (fileStates fw) \<subseteq> observed (pass_trace W (directories fw))"
  shows "snd (checkChanges W order fw) = []"
proof -
  let ?tr = "pass_trace W (directories fw)"
  from assms(1,3) have "set order \<subseteq> observed ?tr"
    by (auto simp: range_order_def walk_phase_dom)
  with observed_subset_listed have "filter (\<lambda>p. p \<notin> listed ?tr) order = []"
    by (fastforce simp: filter_empty_conv)
  with emitted_unchanged [OF assms(2)] show ?thesis
    by (simp add: checkChanges_events)
qed

theorem unchanged_no_events_witness:
  "range_order
     (states (walk_phase (walk_d \<lparr>vpath = ''/d/a.txt'', walk_err = None, os_Stat = Inr a_stat\<rparr>)
        (watching_d [''/d'' \<mapsto> d_info, ''/d/a.txt'' \<mapsto> a_info])))
     [''/d/a.txt'', ''/d''] \<and>
   dom (fileStates (watching_d [''/d'' \<mapsto> d_info, ''/d/a.txt'' \<mapsto> a_info])) \<subseteq>
     observed (pass_trace (walk_d \<lparr>vpath = ''/d/a.txt'', walk_err = None, os_Stat = Inr a_stat\<rparr>)
        [''/d'']) \<and>
   snd (checkChanges (walk_d \<lparr>vpath = ''/d/a.txt'', walk_err = None, os_Stat = Inr a_stat\<rparr>)
        [''/d/a.txt'', ''/d''] (watching_d [''/d'' \<mapsto> d_info, ''/d/a.txt'' \<mapsto> a_info])) = []"
proof -
  have h1: "range_order
     (states (walk_phase (walk_d \<lparr>vpath = ''/d/a.txt'', walk_err = None, os_Stat = Inr a_stat\<rparr>)
        (watching_d [''/d'' \<mapsto> d_info, ''/d/a.txt'' \<mapsto> a_info])))
     [''/d/a.txt'', ''/d'']"
    by (auto simp: eval_defs)
  have h2: "\<forall>(p, new) \<in> set (walk_output (pass_trace
        (walk_d \<lparr>vpath = ''/d/a.txt'', walk_err = None, os_Stat = Inr a_stat\<rparr>)
        (directories (watching_d [''/d'' \<mapsto> d_info, ''/d/a.txt'' \<mapsto> a_info])))).
      \<exists>old. fileStates (watching_d [''/d'' \<mapsto> d_info, ''/d/a.txt'' \<mapsto> a_info]) p = Some old \<and>
        same_meta old new"
    by (simp add: eval_defs)
  have h3: "dom (fileStates (watching_d [''/d'' \<mapsto> d_info, ''/d/a.txt'' \<mapsto> a_info])) \<subseteq>
     observed (pass_trace (walk_d \<lparr>vpath = ''/d/a.txt'', walk_err = None, os_Stat = Inr a_stat\<rparr>)
        (directories (watching_d [''/d'' \<mapsto> d_info, ''/d/a.txt'' \<mapsto> a_info])))"
    by (simp add: eval_defs)
  show ?thesis
    using h1 h3 unchanged_no_events [OF h1 h2 h3]
    by simp
qed

text \<open>
  Two passes in a row over a file system that stays as it is, with calls that fail or
  not: when the records observed for each path agree with one another, the second
  pass emits no event.
\<close>

lemma pass_silent:
  assumes "range_order (states (walk_phase W fw)) order"
    and "\<forall>(p, new) \<in> set (walk_output (pass_trace W (directories fw))).
           \<exists>old. fileStates fw p = Some old \<and> same_meta old new"
    and "dom (fileStates fw) \<subseteq> listed (pass_trace W (directories fw))"
  shows "snd (checkChanges W order fw) = []"
proof -
  let ?tr = "pass_trace W (directories fw)"
  from assms(1,3) have "set order \<subseteq> observed ?tr \<union> listed ?tr"
    by (auto simp: range_order_def walk_phase_dom)
  with observed_subset_listed have "filter (\<lambda>p. p \<notin> listed ?tr) order = []"
    by (fastforce simp: filter_empty_conv)
  with emitted_unchanged [OF assms(2)] show ?thesis
    by (simp add: checkChanges_events)
qed

lemma checkChanges_keys_listed:
  assumes "range_order (states (walk_phase W fw)) order"
  shows "dom (fileStates (fst (checkChanges W order fw))) \<subseteq> listed (pass_trace W (directories fw))"
proof
  fix p assume "p \<in> dom (fileStates (fst (checkChanges W order fw)))"
  then have n: "fileStates (fst (checkChanges W order fw)) p \<noteq> None"
    by (simp add: domIff)
  then have a: "\<not> (p \<in> set order \<and> p \<notin> listed (pass_trace W (directories fw)))"
    by (auto simp: checkChanges_states split: if_splits)
  with n have "(fileStates fw ++ latest (pass_trace W (directories fw))) p \<noteq> None"
    by (auto simp: checkChanges_states split: if_splits)
  then have "p \<in> dom (states (walk_phase W fw))"
    by (simp add: walk_phase_states domIff)
  with assms have "p \<in> set order"
    by (simp add: range_order_def)
  with a show "p \<in> listed (pass_trace W (directories fw))"
    by blast
qed

lemma second_pass_silent:
  assumes "range_order (states (walk_phase W fw)) order1"
    and "range_order (states (walk_phase W (fst (checkChanges W order1 fw)))) order2"
    and "\<forall>p a b. (p, a) \<in> set (walk_output (pass_trace W (directories fw))) \<and>
           (p, b) \<in> set (walk_output (pass_trace W (directories fw))) \<longrightarrow> same_meta a b"
  shows "snd (checkChanges W order2 (fst (checkChanges W order1 fw))) = []"
proof -
  let ?tr = "pass_trace W (directories fw)"
  let ?fw1 = "fst (checkChanges W order1 fw)"
  have dirs: "directories ?fw1 = directories fw"
    by (rule checkChanges_rest)
  have rec: "\<forall>(p, new) \<in> set (walk_output (pass_trace W (directories ?fw1))).
      \<exists>old. fileStates ?fw1 p = Some old \<and> same_meta old new"
  proof (clarify)
    fix p new assume "(p, new) \<in> set (walk_output (pass_trace W (directories ?fw1)))"
    then have pn: "(p, new) \<in> set (walk_output ?tr)"
      by (simp only: dirs)
    then have ob: "p \<in> observed ?tr"
      by (force simp: observed_def)
    then obtain r where l: "latest ?tr p = Some r"
      using dom_latest [of ?tr] by blast
    from ob have "p \<in> listed ?tr"
      using observed_subset_listed by blast
    then have "fileStates ?fw1 p = Some r"
      by (simp add: checkChanges_states map_add_def l)
    moreover from latest_in_output [OF l] pn assms(3) have "same_meta r new"
      by blast
    ultimately show "\<exists>old. fileStates ?fw1 p = Some old \<and> same_meta old new"
      by blast
  qed
  have keys: "dom (fileStates ?fw1) \<subseteq> listed (pass_trace W (directories ?fw1))"
    using checkChanges_keys_listed [OF assms(1)] by (simp only: dirs)
  from assms(2) rec keys show ?thesis
    by (rule pass_silent)
qed

section \<open>The change signals of one path\<close>









section \<open>The seeding walk\<close>

lemma observe_None_iff: "observe v = None \<longleftrightarrow> failing v"
  by (auto simp: observe_def failing_def split: option.splits sum.splits)

lemma not_failingD:
  assumes "\<not> failing v"
  obtains info where "walk_err v = None" and "getFileInfo (os_Stat v) = Inr info"
    and "observe v = Some (vpath v, info)"
proof (cases "getFileInfo (os_Stat v)")
  case (Inl e)
  with assms show ?thesis by (simp add: failing_def)
next
  case (Inr info)
  with assms that [of info] show ?thesis by (simp add: failing_def observe_def)
qed

lemma latest_append: "latest (xs @ ys) = latest xs ++ latest ys"
  by (simp add: latest_def walk_output_def map_filter_def)

lemma init_walk_ok:
  "\<forall>v \<in> set vs. \<not> failing v \<Longrightarrow> init_walk vs m = (m ++ latest vs, None)"
proof (induction vs arbitrary: m)
  case Nil
  show ?case by (simp add: latest_Nil)
next
  case (Cons v vs)
  from Cons.prems have "\<not> failing v" by simp
  then obtain info where w: "walk_err v = None" and g: "getFileInfo (os_Stat v) = Inr info"
    and o: "observe v = Some (vpath v, info)"
    by (rule not_failingD)
  from Cons.prems have "init_walk vs (m(vpath v \<mapsto> info)) = (m(vpath v \<mapsto> info) ++ latest vs, None)"
    by (intro Cons.IH) simp
  then show ?case
    by (simp add: w g latest_Cons [of m v vs] o)
qed


lemma init_dirs_ok:
  "\<forall>v \<in> set (concat (map (\<lambda>(i, dir). W i dir) ds)). \<not> failing v \<Longrightarrow>
   init_dirs W ds m = (m ++ latest (concat (map (\<lambda>(i, dir). W i dir) ds)), None)"
proof (induction ds arbitrary: m)
  case Nil
  show ?case by (simp add: latest_Nil)
next
  case (Cons d ds)
  obtain i dir where d: "d = (i, dir)" by (cases d)
  from Cons.prems have a: "\<forall>v \<in> set (W i dir). \<not> failing v"
    and b: "\<forall>v \<in> set (concat (map (\<lambda>(i, dir). W i dir) ds)). \<not> failing v"
    by (auto simp: d)
  show ?case
    by (simp add: d init_walk_ok [OF a] Cons.IH [OF b] latest_append)
qed


lemma initialize_ok:
  "\<forall>v \<in> set (pass_trace W (directories fw)). \<not> failing v \<Longrightarrow>
   initialize W fw =
     (fw\<lparr>fileStates := fileStates fw ++ latest (pass_trace W (directories fw))\<rparr>, None)"
  by (simp add: initialize_def pass_trace_def init_dirs_ok)


lemma NewFileWatcher_fields:
  "directories (NewFileWatcher dirs) = dirs"
  "fileStates (NewFileWatcher dirs) = Map.empty"
  by (simp_all add: NewFileWatcher_def)

lemma observed_all:
  "\<forall>v \<in> set vs. \<not> failing v \<Longrightarrow> observed vs = set (map vpath vs)"
proof (induction vs)
  case Nil
  show ?case by (simp add: observed_Nil)
next
  case (Cons v vs)
  from Cons.prems have "\<not> failing v" by simp
  then obtain info where "observe v = Some (vpath v, info)"
    by (rule not_failingD)
  with Cons show ?case by (simp add: observed_Cons)
qed

text \<open>
  Claim C7. When no call of the seeding walk fails and the walk reaches \<open>N\<close> distinct
  paths, \<open>initialize\<close> on a new watcher returns no error and leaves a snapshot of
  exactly \<open>N\<close> entries, each path with the record observed for it; \<open>initialize\<close>
  prints nothing, so when the first tick is due no event has been emitted.
\<close>

theorem initialize_silent:
  assumes "\<forall>v \<in> set (pass_trace W dirs). \<not> failing v"
    and "distinct (map vpath (pass_trace W dirs))"
  shows "snd (initialize W (NewFileWatcher dirs)) = None \<and>
         Start W env 0 (NewFileWatcher dirs) = Ticking (fst (initialize W (NewFileWatcher dirs))) [] \<and>
         card (dom (fileStates (fst (initialize W (NewFileWatcher dirs))))) =
           length (pass_trace W dirs) \<and>
         fileStates (fst (initialize W (NewFileWatcher dirs))) = latest (pass_trace W dirs)"
proof -
  let ?tr = "pass_trace W dirs"
  from assms(1) have i: "initialize W (NewFileWatcher dirs) =
      ((NewFileWatcher dirs)\<lparr>fileStates := latest ?tr\<rparr>, None)"
    using initialize_ok [of W "NewFileWatcher dirs"] by (simp add: NewFileWatcher_fields)
  have "card (dom (latest ?tr)) = card (set (map vpath ?tr))"
    by (simp only: dom_latest observed_all [OF assms(1)])
  also have "\<dots> = length ?tr"
    using distinct_card [OF assms(2)] by simp
  finally show ?thesis
    by (simp add: i Start_def)
qed

theorem initialize_silent_witness:
  "filter failing (pass_trace
        (walk_d \<lparr>vpath = ''/d/a.txt'', walk_err = None, os_Stat = Inr a_stat\<rparr>) [''/d'']) = [] \<and>
   distinct (map vpath (pass_trace
        (walk_d \<lparr>vpath = ''/d/a.txt'', walk_err = None, os_Stat = Inr a_stat\<rparr>) [''/d''])) \<and>
   length (pass_trace
        (walk_d \<lparr>vpath = ''/d/a.txt'', walk_err = None, os_Stat = Inr a_stat\<rparr>) [''/d'']) = 2 \<and>
   card (dom (fileStates (fst (initialize
        (walk_d \<lparr>vpath = ''/d/a.txt'', walk_err = None, os_Stat = Inr a_stat\<rparr>)
        (NewFileWatcher [''/d'']))))) = 2 \<and>
   Start (walk_d \<lparr>vpath = ''/d/a.txt'', walk_err = None, os_Stat = Inr a_stat\<rparr>)
        (every_tick (static_fs []) []) 0 (NewFileWatcher [''/d'']) =
     Ticking (watching_d [''/d'' \<mapsto> d_info, ''/d/a.txt'' \<mapsto> a_info]) []"
proof -
  have h1: "\<forall>v \<in> set (pass_trace
        (walk_d \<lparr>vpath = ''/d/a.txt'', walk_err = None, os_Stat = Inr a_stat\<rparr>) [''/d'']).
      \<not> failing v"
    by (simp add: eval_defs failing_def)
  have h2: "distinct (map vpath (pass_trace
        (walk_d \<lparr>vpath = ''/d/a.txt'', walk_err = None, os_Stat = Inr a_stat\<rparr>) [''/d'']))"
    by (simp add: eval_defs)
  have l: "length (pass_trace
        (walk_d \<lparr>vpath = ''/d/a.txt'', walk_err = None, os_Stat = Inr a_stat\<rparr>) [''/d'']) = 2"
    by (simp add: eval_defs)
  have i: "initialize (walk_d \<lparr>vpath = ''/d/a.txt'', walk_err = None, os_Stat = Inr a_stat\<rparr>)
        (NewFileWatcher [''/d'']) =
      (watching_d [''/d'' \<mapsto> d_info, ''/d/a.txt'' \<mapsto> a_info], None)"
    by (simp add: initialize_def NewFileWatcher_def eval_defs)
  note t = initialize_silent [OF h1 h2, of "every_tick (static_fs []) []"]
  from t have "card (dom (fileStates (fst (initialize
        (walk_d \<lparr>vpath = ''/d/a.txt'', walk_err = None, os_Stat = Inr a_stat\<rparr>)
        (NewFileWatcher [''/d'']))))) =
      length (pass_trace
        (walk_d \<lparr>vpath = ''/d/a.txt'', walk_err = None, os_Stat = Inr a_stat\<rparr>) [''/d''])"
    by blast
  then have c: "card (dom (fileStates (fst (initialize
        (walk_d \<lparr>vpath = ''/d/a.txt'', walk_err = None, os_Stat = Inr a_stat\<rparr>)
        (NewFileWatcher [''/d'']))))) = 2"
    by (simp only: l)
  from t have "Start (walk_d \<lparr>vpath = ''/d/a.txt'', walk_err = None, os_Stat = Inr a_stat\<rparr>)
        (every_tick (static_fs []) []) 0 (NewFileWatcher [''/d'']) =
      Ticking (fst (initialize
        (walk_d \<lparr>vpath = ''/d/a.txt'', walk_err = None, os_Stat = Inr a_stat\<rparr>)
        (NewFileWatcher [''/d'']))) []"
    by blast
  then have st: "Start (walk_d \<lparr>vpath = ''/d/a.txt'', walk_err = None, os_Stat = Inr a_stat\<rparr>)
        (every_tick (static_fs []) []) 0 (NewFileWatcher [''/d'']) =
      Ticking (watching_d [''/d'' \<mapsto> d_info, ''/d/a.txt'' \<mapsto> a_info]) []"
    by (simp only: i fst_conv)
  from h1 have "filter failing (pass_trace
        (walk_d \<lparr>vpath = ''/d/a.txt'', walk_err = None, os_Stat = Inr a_stat\<rparr>) [''/d'']) = []"
    by (simp only: filter_empty_conv)
  with h2 l c st show ?thesis
    by blast
qed

section \<open>Fatal exits at start-up\<close>



section \<open>The directory flag\<close>

lemma same_call_observe:
  assumes "same_call v w"
  shows "(observe v = None \<and> observe w = None) \<or>
         (\<exists>a b. observe v = Some (vpath v, a) \<and> observe w = Some (vpath v, b) \<and> same_meta a b)"
proof (cases "walk_err v")
  case (Some e)
  moreover from assms Some have "walk_err w = Some e"
    by (simp add: same_call_def)
  ultimately show ?thesis by (simp add: observe_def)
next
  case None
  from assms have r: "rel_sum (=) same_stat (os_Stat v) (os_Stat w)"
    and p: "vpath w = vpath v"
    by (simp_all add: same_call_def)
  from assms None have w: "walk_err w = None"
    by (simp add: same_call_def)
  from r None w p show ?thesis
    by (cases "os_Stat v"; cases "os_Stat w")
      (simp_all add: observe_def getFileInfo_def same_stat_def same_meta_def)
qed

lemma same_call_listed: "list_all2 same_call vs ws \<Longrightarrow> listed vs = listed ws"
proof (induction vs arbitrary: ws)
  case Nil
  then show ?case by simp
next
  case (Cons v vs)
  then obtain w ws' where ws: "ws = w # ws'" and c: "same_call v w" and r: "list_all2 same_call vs ws'"
    by (auto simp: list_all2_Cons1)
  from Cons.IH [OF r] c show ?case
    by (simp add: ws listed_Cons same_call_def)
qed

lemma entry_events_same:
  "rel_option same_meta (m p) (m' p) \<Longrightarrow> same_meta a b \<Longrightarrow>
   entry_events m p a = entry_events m' p b"
  by (cases "m p"; cases "m' p") (auto simp: entry_events_def change_events_def same_meta_def)

lemma same_snapshot_upd:
  "same_snapshot m m' \<Longrightarrow> same_meta a b \<Longrightarrow> same_snapshot (m(p \<mapsto> a)) (m'(p \<mapsto> b))"
  by (simp add: same_snapshot_def)

lemma emitted_same:
  "list_all2 same_call vs ws \<Longrightarrow> same_snapshot m m' \<Longrightarrow> emitted vs m = emitted ws m'"
proof (induction vs arbitrary: ws m m')
  case Nil
  then show ?case by simp
next
  case (Cons v vs)
  from Cons.prems(1) obtain w ws' where ws: "ws = w # ws'" and c: "same_call v w"
    and r: "list_all2 same_call vs ws'"
    by (auto simp: list_all2_Cons1)
  from same_call_observe [OF c] show ?case
  proof
    assume "observe v = None \<and> observe w = None"
    with Cons.IH [OF r Cons.prems(2)] show ?thesis
      by (simp add: ws)
  next
    assume "\<exists>a b. observe v = Some (vpath v, a) \<and> observe w = Some (vpath v, b) \<and> same_meta a b"
    then obtain a b where o: "observe v = Some (vpath v, a)" "observe w = Some (vpath v, b)"
      and s: "same_meta a b"
      by blast
    have "emitted vs (m(vpath v \<mapsto> a)) = emitted ws' (m'(vpath v \<mapsto> b))"
      by (rule Cons.IH [OF r]) (rule same_snapshot_upd [OF Cons.prems(2) s])
    moreover from Cons.prems(2) have "rel_option same_meta (m (vpath v)) (m' (vpath v))"
      by (simp add: same_snapshot_def)
    ultimately show ?thesis
      by (simp add: ws o entry_events_same [OF _ s])
  qed
qed

lemma render_prefix: "take 5 (render e) = ''File ''"
  by (cases e) simp_all

text \<open>
  Claim C10. The events of a pass do not depend on the \<open>IsDir\<close> flag: two passes
  whose snapshots and walks agree in every path, error, size, modification time and
  mode emit the same events, whatever the flags are. A call for a path of the snapshot
  whose record has the size, time and mode of the stored one prints nothing, also
  when the flag has changed. Every message starts with \<open>File\<close>, for a directory as
  for a regular file.
\<close>

theorem isDir_ignored:
  assumes "same_snapshot (fileStates fw) (fileStates fw')"
    and "list_all2 same_call (pass_trace W (directories fw)) (pass_trace W' (directories fw'))"
  shows "snd (checkChanges W order fw) = snd (checkChanges W' order fw') \<and>
         (walk_err v = None \<and> getFileInfo (os_Stat v) = Inr new \<and>
          states s (vpath v) = Some old \<and> same_meta old new \<longrightarrow>
            printed (check_visit v s) = printed s) \<and>
         take 5 (render e) = ''File ''"
proof -
  have "snd (checkChanges W order fw) = snd (checkChanges W' order fw')"
    by (simp add: checkChanges_events emitted_same [OF assms(2,1)] same_call_listed [OF assms(2)])
  moreover have "walk_err v = None \<and> getFileInfo (os_Stat v) = Inr new \<and>
          states s (vpath v) = Some old \<and> same_meta old new \<longrightarrow>
            printed (check_visit v s) = printed s"
    by (simp add: check_visit_printed observe_def entry_events_def same_meta_change_events)
  ultimately show ?thesis
    by (simp add: render_prefix)
qed

theorem isDir_ignored_witness:
  "same_snapshot
     (fileStates (watching_d [''/d'' \<mapsto> d_info, ''/d/a.txt'' \<mapsto> a_info]))
     (fileStates (watching_d [''/d'' \<mapsto> d_info, ''/d/a.txt'' \<mapsto> a_info\<lparr>IsDir := True\<rparr>])) \<and>
   snd (checkChanges
      (walk_d \<lparr>vpath = ''/d/a.txt'', walk_err = None, os_Stat = Inr (a_stat\<lparr>stat_Size := 0\<rparr>)\<rparr>)
      [''/d'', ''/d/a.txt''] (watching_d [''/d'' \<mapsto> d_info, ''/d/a.txt'' \<mapsto> a_info])) =
     [SizeChanged ''/d/a.txt''] \<and>
   snd (checkChanges
      (walk_d \<lparr>vpath = ''/d/a.txt'', walk_err = None,
         os_Stat = Inr (a_stat\<lparr>stat_Size := 0, stat_IsDir := True\<rparr>)\<rparr>)
      [''/d'', ''/d/a.txt'']
      (watching_d [''/d'' \<mapsto> d_info, ''/d/a.txt'' \<mapsto> a_info\<lparr>IsDir := True\<rparr>])) =
     [SizeChanged ''/d/a.txt''] \<and>
   printed (check_visit
      \<lparr>vpath = ''/d/a.txt'', walk_err = None, os_Stat = Inr (a_stat\<lparr>stat_IsDir := True\<rparr>)\<rparr>
      \<lparr>currentFiles = {}, states = [''/d/a.txt'' \<mapsto> a_info], printed = []\<rparr>) = [] \<and>
   take 5 (render (Created ''/d'')) = ''File ''"
proof -
  have h1: "same_snapshot
     (fileStates (watching_d [''/d'' \<mapsto> d_info, ''/d/a.txt'' \<mapsto> a_info]))
     (fileStates (watching_d [''/d'' \<mapsto> d_info, ''/d/a.txt'' \<mapsto> a_info\<lparr>IsDir := True\<rparr>]))"
    by (simp add: same_snapshot_def same_meta_def)
  have h2: "list_all2 same_call
     (pass_trace
        (walk_d \<lparr>vpath = ''/d/a.txt'', walk_err = None, os_Stat = Inr (a_stat\<lparr>stat_Size := 0\<rparr>)\<rparr>)
        (directories (watching_d [''/d'' \<mapsto> d_info, ''/d/a.txt'' \<mapsto> a_info])))
     (pass_trace
        (walk_d \<lparr>vpath = ''/d/a.txt'', walk_err = None,
           os_Stat = Inr (a_stat\<lparr>stat_Size := 0, stat_IsDir := True\<rparr>)\<rparr>)
        (directories (watching_d [''/d'' \<mapsto> d_info, ''/d/a.txt'' \<mapsto> a_info\<lparr>IsDir := True\<rparr>])))"
    by (simp add: eval_defs same_call_def same_stat_def)
  have e: "snd (checkChanges
      (walk_d \<lparr>vpath = ''/d/a.txt'', walk_err = None, os_Stat = Inr (a_stat\<lparr>stat_Size := 0\<rparr>)\<rparr>)
      [''/d'', ''/d/a.txt''] (watching_d [''/d'' \<mapsto> d_info, ''/d/a.txt'' \<mapsto> a_info])) =
     [SizeChanged ''/d/a.txt'']"
    by (simp add: eval_defs)
  have g: "getFileInfo (os_Stat
      \<lparr>vpath = ''/d/a.txt'', walk_err = None, os_Stat = Inr (a_stat\<lparr>stat_IsDir := True\<rparr>)\<rparr>) =
      Inr (a_info\<lparr>IsDir := True\<rparr>)"
    by (simp add: getFileInfo_def)
  note t = isDir_ignored [OF h1 h2, of "[''/d'', ''/d/a.txt'']"
      "\<lparr>vpath = ''/d/a.txt'', walk_err = None, os_Stat = Inr (a_stat\<lparr>stat_IsDir := True\<rparr>)\<rparr>"
      "a_info\<lparr>IsDir := True\<rparr>"
      "\<lparr>currentFiles = {}, states = [''/d/a.txt'' \<mapsto> a_info], printed = []\<rparr>"
      a_info "Created ''/d''"]
  show ?thesis
    using h1 e g t
    by (simp add: same_meta_def)
qed

end
